theory Spec2Isabelle
  imports Complex_Main "HOL-Library.Word" "HOL-Library.Signed_Division"
begin

section \<open>Data model of MandelbrotSet.c\<close>

text \<open>
  The C type \<^verbatim>\<open>real\<close> is \<^verbatim>\<open>long double\<close>.  It is modelled by the exact reals:
  every statement below about coordinates and escape orbits is a statement about the
  arithmetic the code writes down, without rounding.  The C type \<^verbatim>\<open>int\<close> is modelled by
  \<^typ>\<open>int\<close>; on the inputs considered (indices inside the grid, scores between 0 and the
  iteration bound) no C operation overflows, and C's truncating division is written
  \<open>sdiv\<close>.  A call that does not return is the value \<open>None\<close>.

  Three fields are renamed, because HOL has constants of their names: \<^verbatim>\<open>top\<close> is
  \<open>topEdge\<close>, and the fields \<^verbatim>\<open>x\<close> and \<^verbatim>\<open>y\<close> of a coordinate are \<open>coord_x\<close> and
  \<open>coord_y\<close>.  The parameters \<^verbatim>\<open>width\<close> and \<^verbatim>\<open>height\<close> of the static functions are
  \<open>wd\<close> and \<open>ht\<close>, to keep them apart from the fields.
\<close>

record mandelbrotCoord =
  coord_x :: real
  coord_y :: real

text \<open>
  \<^verbatim>\<open>int **pixelScores\<close>: the cell \<^verbatim>\<open>pixelScores[row][col]\<close> is \<open>g row col\<close>.  The
  allocation made by \<^verbatim>\<open>allocatePixelScores\<close> holds the rows \<open>0 \<le> row < height\<close> and
  the columns \<open>0 \<le> col < width\<close>; its initial contents are whatever \<^verbatim>\<open>malloc\<close> returned.
\<close>

type_synonym grid = "int \<Rightarrow> int \<Rightarrow> int"

record mandelbrotSetData =
  width :: int
  height :: int
  center :: mandelbrotCoord
  resolution :: real
  topEdge :: real
  left :: real
  pixelScores :: grid
  maxIterations :: int
  isGenerated :: bool

definition DEFAULT_MAX_ITERATIONS :: int where
  "DEFAULT_MAX_ITERATIONS = 255"

definition ESCAPE_RADIUS_SQ :: real where
  "ESCAPE_RADIUS_SQ = 4"

section \<open>Loops\<close>

text \<open>
  \<^verbatim>\<open>for (i = start; i != bound; ++i) body\<close>.  The test is \<^verbatim>\<open>!=\<close>, so the loop only
  stops when the counter hits the bound exactly.
\<close>

partial_function (option) forLoop ::
  "int \<Rightarrow> int \<Rightarrow> (int \<Rightarrow> 's \<Rightarrow> 's option) \<Rightarrow> 's \<Rightarrow> 's option" where
  "forLoop i bound body s =
     (if i \<noteq> bound then Option.bind (body i s) (forLoop (i + 1) bound body) else Some s)"

section \<open>The escape scorer\<close>

text \<open>The \<^verbatim>\<open>while\<close> loop of \<^verbatim>\<open>escapeScore\<close>, with its five loop variables.\<close>

partial_function (option) escapeLoop ::
  "int \<Rightarrow> mandelbrotCoord \<Rightarrow> real \<Rightarrow> real \<Rightarrow> real \<Rightarrow> real \<Rightarrow> int \<Rightarrow> int option" where
  "escapeLoop maxIter coord x y xSq ySq score =
     (if xSq + ySq < ESCAPE_RADIUS_SQ \<and> score \<noteq> maxIter then
        (let tempX = xSq - ySq + coord_x coord;
             y' = 2 * x * y + coord_y coord;
             x' = tempX
         in escapeLoop maxIter coord x' y' (x' * x') (y' * y') (score + 1))
      else Some score)"

definition cardioidTest :: "mandelbrotCoord \<Rightarrow> bool" where
  "cardioidTest coord =
     (let xShifted = coord_x coord - 0.25;
          sqCoordY = coord_y coord * coord_y coord;
          q = xShifted * xShifted + sqCoordY
      in q * (q + xShifted) < 0.25 * sqCoordY)"

definition escapeScore :: "mandelbrotSetData \<Rightarrow> mandelbrotCoord \<Rightarrow> int option" where
  "escapeScore fractal coord =
     (if cardioidTest coord
      then Some (maxIterations fractal)
      else escapeLoop (maxIterations fractal) coord 0 0 0 0 0)"

section \<open>Pixels\<close>

text \<open>The coordinate computed at the head of \<^verbatim>\<open>generateSetPixel\<close>.\<close>

definition pixelCoord :: "mandelbrotSetData \<Rightarrow> int \<Rightarrow> int \<Rightarrow> mandelbrotCoord" where
  "pixelCoord fractal row col =
     (let halfResolution = resolution fractal / 2
      in \<lparr> coord_x = left fractal + (resolution fractal * of_int col + halfResolution),
           coord_y = topEdge fractal - (resolution fractal * of_int row + halfResolution) \<rparr>)"

definition setScore :: "mandelbrotSetData \<Rightarrow> int \<Rightarrow> int \<Rightarrow> int \<Rightarrow> mandelbrotSetData" where
  "setScore fractal row col v =
     fractal\<lparr>pixelScores := (pixelScores fractal)(row := (pixelScores fractal row)(col := v))\<rparr>"

definition generateSetPixel :: "mandelbrotSetData \<Rightarrow> int \<Rightarrow> int \<Rightarrow> mandelbrotSetData option" where
  "generateSetPixel fractal row col =
     Option.bind (escapeScore fractal (pixelCoord fractal row col))
       (\<lambda>score. Some (setScore fractal row col score))"

section \<open>The naive generator\<close>

definition generateRectangle ::
  "mandelbrotSetData \<Rightarrow> int \<Rightarrow> int \<Rightarrow> int \<Rightarrow> int \<Rightarrow> mandelbrotSetData option" where
  "generateRectangle fractal startX startY wd ht =
     forLoop startY (startY + ht)
       (\<lambda>row. forLoop startX (startX + wd) (\<lambda>col f. generateSetPixel f row col))
       fractal"

section \<open>The accelerated generator\<close>

partial_function (option) blockRowLoop ::
  "int \<Rightarrow> int \<Rightarrow> int \<Rightarrow> bool \<Rightarrow> int \<Rightarrow> mandelbrotSetData \<Rightarrow> (bool \<times> mandelbrotSetData) option" where
  "blockRowLoop row colStart wd isSameColor col fractal =
     (if isSameColor \<and> col \<noteq> colStart + wd then
        Option.bind (generateSetPixel fractal row col)
          (\<lambda>f. blockRowLoop row colStart wd
                 (if col > 0 \<and> pixelScores f row col \<noteq> pixelScores f row (col - 1)
                  then False else isSameColor)
                 (col + 1) f)
      else Some (isSameColor, fractal))"

definition generateBlockRow ::
  "mandelbrotSetData \<Rightarrow> int \<Rightarrow> int \<Rightarrow> int \<Rightarrow> (bool \<times> mandelbrotSetData) option" where
  "generateBlockRow fractal row colStart wd = blockRowLoop row colStart wd True colStart fractal"

partial_function (option) blockColLoop ::
  "int \<Rightarrow> int \<Rightarrow> int \<Rightarrow> bool \<Rightarrow> int \<Rightarrow> mandelbrotSetData \<Rightarrow> (bool \<times> mandelbrotSetData) option" where
  "blockColLoop col rowStart ht isSameColor row fractal =
     (if isSameColor \<and> row \<noteq> rowStart + ht then
        Option.bind (generateSetPixel fractal row col)
          (\<lambda>f. blockColLoop col rowStart ht
                 (if row > 0 \<and> pixelScores f row col \<noteq> pixelScores f (row - 1) col
                  then False else isSameColor)
                 (row + 1) f)
      else Some (isSameColor, fractal))"

definition generateBlockCol ::
  "mandelbrotSetData \<Rightarrow> int \<Rightarrow> int \<Rightarrow> int \<Rightarrow> (bool \<times> mandelbrotSetData) option" where
  "generateBlockCol fractal col rowStart ht = blockColLoop col rowStart ht True rowStart fractal"

text \<open>\<^verbatim>\<open>canSkip = canSkip && call\<close>: the call is not made once \<open>canSkip\<close> is false.\<close>

definition andAlso ::
  "(bool \<times> mandelbrotSetData) option \<Rightarrow> (mandelbrotSetData \<Rightarrow> (bool \<times> mandelbrotSetData) option)
     \<Rightarrow> (bool \<times> mandelbrotSetData) option" where
  "andAlso prev call =
     Option.bind prev (\<lambda>(canSkip, f). if canSkip then call f else Some (False, f))"

text \<open>
  The border evaluation of \<^verbatim>\<open>generateDivideAndConquer\<close>: the four statements that
  assign \<open>canSkip\<close>.
\<close>

definition checkBorders ::
  "mandelbrotSetData \<Rightarrow> int \<Rightarrow> int \<Rightarrow> int \<Rightarrow> int \<Rightarrow> (bool \<times> mandelbrotSetData) option" where
  "checkBorders fractal startX startY wd ht =
     (let firstRow = startY;
          lastRow = startY + ht - 1;
          firstCol = startX;
          lastCol = startX + wd - 1
      in andAlso (andAlso (andAlso
           (generateBlockRow fractal firstRow firstCol wd)
           (\<lambda>f. generateBlockRow f lastRow firstCol wd))
           (\<lambda>f. generateBlockCol f firstCol (firstRow + 1) (ht - 2)))
           (\<lambda>f. generateBlockCol f lastCol (firstRow + 1) (ht - 2)))"

text \<open>The pruning case: the two nested loops that copy the corner's score.\<close>

definition fillInterior ::
  "mandelbrotSetData \<Rightarrow> int \<Rightarrow> int \<Rightarrow> int \<Rightarrow> int \<Rightarrow> mandelbrotSetData option" where
  "fillInterior fractal startX startY wd ht =
     (let firstRow = startY; firstCol = startX
      in forLoop (firstRow + 1) (firstRow + 1 + ht - 2)
           (\<lambda>row. forLoop (firstCol + 1) (firstCol + 1 + wd - 2)
              (\<lambda>col f. Some (setScore f row col (pixelScores f firstRow firstCol))))
           fractal)"

partial_function (option) generateDivideAndConquer ::
  "mandelbrotSetData \<Rightarrow> int \<Rightarrow> int \<Rightarrow> int \<Rightarrow> int \<Rightarrow> mandelbrotSetData option" where
  "generateDivideAndConquer fractal startX startY wd ht =
     (if wd < 3 \<or> ht < 3 then generateRectangle fractal startX startY wd ht
      else
        Option.bind (checkBorders fractal startX startY wd ht)
          (\<lambda>(canSkip, f).
             if canSkip \<and> pixelScores f startY startX \<noteq> 0
             then fillInterior f startX startY wd ht
             else
               (let newWidth = wd sdiv 2; newHeight = ht sdiv 2
                in Option.bind (generateDivideAndConquer f startX startY newWidth newHeight)
                  (\<lambda>f. Option.bind
                     (generateDivideAndConquer f (startX + newWidth) startY
                        (wd - newWidth) newHeight)
                  (\<lambda>f. Option.bind
                     (generateDivideAndConquer f startX (startY + newHeight)
                        newWidth (ht - newHeight))
                  (\<lambda>f. generateDivideAndConquer f (startX + newWidth) (startY + newHeight)
                        (wd - newWidth) (ht - newHeight)))))))"

section \<open>The public operations\<close>

text \<open>
  \<^verbatim>\<open>createMandelbrotSet\<close>: the struct and the grid come from \<^verbatim>\<open>malloc\<close>; the argument
  \<open>uninit\<close> stands for their indeterminate contents.  The two assertions abort the
  process when an allocation fails, so a session that exists has its grid.
\<close>

definition createMandelbrotSet :: "int \<Rightarrow> int \<Rightarrow> mandelbrotSetData \<Rightarrow> mandelbrotSetData" where
  "createMandelbrotSet wd ht uninit =
     uninit\<lparr>width := wd, height := ht, maxIterations := DEFAULT_MAX_ITERATIONS,
            isGenerated := False\<rparr>"

text \<open>
  \<^verbatim>\<open>(unsigned long long)1 << zoom\<close>: C defines the shift of a 64-bit operand only for
  \<open>0 \<le> zoom < 64\<close>; outside that range the behaviour is undefined, which is \<open>None\<close>.
\<close>

definition shiftLeft_ull :: "64 word \<Rightarrow> int \<Rightarrow> 64 word option" where
  "shiftLeft_ull v n = (if 0 \<le> n \<and> n < 64 then Some (push_bit (nat n) v) else None)"

definition MandelbrotSet_setPosition ::
  "mandelbrotSetData \<Rightarrow> mandelbrotCoord \<Rightarrow> int \<Rightarrow> mandelbrotSetData option" where
  "MandelbrotSet_setPosition fractal c zoom =
     Option.bind (shiftLeft_ull 1 zoom) (\<lambda>p.
       (let res = 1 / real (unat p);
            fractalWidth = of_int (width fractal) * res;
            fractalHeight = of_int (height fractal) * res
        in Some (fractal\<lparr>center := c, resolution := res,
                         left := coord_x c - fractalWidth / 2,
                         topEdge := coord_y c + fractalHeight / 2,
                         isGenerated := False\<rparr>)))"

definition MandelbrotSet_generate :: "mandelbrotSetData \<Rightarrow> mandelbrotSetData option" where
  "MandelbrotSet_generate fractal =
     Option.bind (generateRectangle fractal 0 0 (width fractal) (height fractal))
       (\<lambda>f. Some (f\<lparr>isGenerated := True\<rparr>))"

definition MandelbrotSet_fastGenerate :: "mandelbrotSetData \<Rightarrow> mandelbrotSetData option" where
  "MandelbrotSet_fastGenerate fractal =
     Option.bind (generateDivideAndConquer fractal 0 0 (width fractal) (height fractal))
       (\<lambda>f. Some (f\<lparr>isGenerated := True\<rparr>))"

text \<open>
  \<^verbatim>\<open>MandelbrotSet_getScores\<close> returns what it printed on \<^verbatim>\<open>stderr\<close> and the pointer:
  \<open>None\<close> is \<^verbatim>\<open>NULL\<close>.
\<close>

definition staleMessage :: string where
  "staleMessage = ''Mandelbrot Set has changed and requires regenerating.'' @ [CHR 0x0A]"

definition MandelbrotSet_getScores :: "mandelbrotSetData \<Rightarrow> string \<times> grid option" where
  "MandelbrotSet_getScores fractal =
     (if \<not> isGenerated fractal then (staleMessage, None)
      else ([], Some (pixelScores fractal)))"

definition MandelbrotSet_setMaxIterations :: "mandelbrotSetData \<Rightarrow> int \<Rightarrow> mandelbrotSetData" where
  "MandelbrotSet_setMaxIterations fractal n = fractal\<lparr>maxIterations := n\<rparr>"

section \<open>Grid-level description of the generators\<close>

text \<open>
  The definitions of this section are used in the proofs only.  For a table \<open>\<sigma>\<close> of
  escape scores they describe, as total functions on grids, what the loops above do to
  \<^verbatim>\<open>pixelScores\<close>; the refinement lemmas below prove that the generators compute exactly
  these grids whenever they return.
\<close>

text \<open>
  \<open>scoreOf s\<close> is the table of the scores that \<^verbatim>\<open>generateSetPixel\<close> stores for the
  session \<open>s\<close>, and \<open>scored \<sigma> s\<close> says that the scorer returns \<open>\<sigma>\<close> for every pixel.
\<close>

definition scoreOf :: "mandelbrotSetData \<Rightarrow> grid" where
  "scoreOf s = (\<lambda>row col. case escapeScore s (pixelCoord s row col) of Some v \<Rightarrow> v | None \<Rightarrow> 0)"

definition scored :: "grid \<Rightarrow> mandelbrotSetData \<Rightarrow> bool" where
  "scored \<sigma> s = (\<forall>row col. escapeScore s (pixelCoord s row col) = Some (\<sigma> row col))"

text \<open>
  One pass of \<^verbatim>\<open>generateBlockRow\<close> or \<^verbatim>\<open>generateBlockCol\<close> over a line with scores
  \<open>f\<close>: \<open>p\<close> is the grid entry before position \<open>j\<close>, \<open>n\<close> the number of pixels left.  The
  result is the flag and the position after the last pixel written.
\<close>

fun scanLine :: "(int \<Rightarrow> int) \<Rightarrow> int \<Rightarrow> int \<Rightarrow> nat \<Rightarrow> bool \<times> int" where
  "scanLine f p j 0 = (True, j)"
| "scanLine f p j (Suc n) =
     (if j > 0 \<and> f j \<noteq> p then (False, j + 1) else scanLine f (f j) (j + 1) n)"

definition gridBlockRow :: "grid \<Rightarrow> grid \<Rightarrow> int \<Rightarrow> int \<Rightarrow> int \<Rightarrow> bool \<times> grid" where
  "gridBlockRow \<sigma> g row colStart wd =
     (case scanLine (\<sigma> row) (g row (colStart - 1)) colStart (nat wd) of
        (b, stop) \<Rightarrow> (b, \<lambda>r c. if r = row \<and> colStart \<le> c \<and> c < stop then \<sigma> r c else g r c))"

definition gridBlockCol :: "grid \<Rightarrow> grid \<Rightarrow> int \<Rightarrow> int \<Rightarrow> int \<Rightarrow> bool \<times> grid" where
  "gridBlockCol \<sigma> g col rowStart ht =
     (case scanLine (\<lambda>r. \<sigma> r col) (g (rowStart - 1) col) rowStart (nat ht) of
        (b, stop) \<Rightarrow> (b, \<lambda>r c. if c = col \<and> rowStart \<le> r \<and> r < stop then \<sigma> r c else g r c))"

definition gridAndAlso :: "bool \<times> grid \<Rightarrow> (grid \<Rightarrow> bool \<times> grid) \<Rightarrow> bool \<times> grid" where
  "gridAndAlso prev call = (case prev of (b, g) \<Rightarrow> if b then call g else (False, g))"

definition gridBorders :: "grid \<Rightarrow> grid \<Rightarrow> int \<Rightarrow> int \<Rightarrow> int \<Rightarrow> int \<Rightarrow> bool \<times> grid" where
  "gridBorders \<sigma> g startX startY wd ht =
     gridAndAlso (gridAndAlso (gridAndAlso
       (gridBlockRow \<sigma> g startY startX wd)
       (\<lambda>g. gridBlockRow \<sigma> g (startY + ht - 1) startX wd))
       (\<lambda>g. gridBlockCol \<sigma> g startX (startY + 1) (ht - 2)))
       (\<lambda>g. gridBlockCol \<sigma> g (startX + wd - 1) (startY + 1) (ht - 2))"

definition gridRectangle :: "grid \<Rightarrow> grid \<Rightarrow> int \<Rightarrow> int \<Rightarrow> int \<Rightarrow> int \<Rightarrow> grid" where
  "gridRectangle \<sigma> g startX startY wd ht =
     (\<lambda>r c. if startY \<le> r \<and> r < startY + ht \<and> startX \<le> c \<and> c < startX + wd
             then \<sigma> r c else g r c)"

definition gridFill :: "grid \<Rightarrow> int \<Rightarrow> int \<Rightarrow> int \<Rightarrow> int \<Rightarrow> grid" where
  "gridFill g startX startY wd ht =
     (\<lambda>r c. if startY + 1 \<le> r \<and> r < startY + ht - 1 \<and> startX + 1 \<le> c \<and> c < startX + wd - 1
             then g startY startX else g r c)"

function gridDivideAndConquer :: "grid \<Rightarrow> grid \<Rightarrow> int \<Rightarrow> int \<Rightarrow> int \<Rightarrow> int \<Rightarrow> grid" where
  "gridDivideAndConquer \<sigma> g startX startY wd ht =
     (if wd < 3 \<or> ht < 3 then gridRectangle \<sigma> g startX startY wd ht
      else
        (case gridBorders \<sigma> g startX startY wd ht of
           (canSkip, g0) \<Rightarrow>
             if canSkip \<and> g0 startY startX \<noteq> 0 then gridFill g0 startX startY wd ht
             else
               (let newWidth = wd sdiv 2; newHeight = ht sdiv 2;
                    g1 = gridDivideAndConquer \<sigma> g0 startX startY newWidth newHeight;
                    g2 = gridDivideAndConquer \<sigma> g1 (startX + newWidth) startY
                           (wd - newWidth) newHeight;
                    g3 = gridDivideAndConquer \<sigma> g2 startX (startY + newHeight)
                           newWidth (ht - newHeight)
                in gridDivideAndConquer \<sigma> g3 (startX + newWidth) (startY + newHeight)
                     (wd - newWidth) (ht - newHeight))))"
  by pat_completeness auto

termination gridDivideAndConquer
  apply (relation "measure (\<lambda>(\<sigma>, g, startX, startY, wd, ht). nat wd)")
  apply (auto simp: signed_divide_int_def sgn_if)
  done

declare gridDivideAndConquer.simps [simp del]

text \<open>Sets of pixels, as pairs of row and column, and the grid after writing a set.\<close>

definition written :: "grid \<Rightarrow> grid \<Rightarrow> (int \<times> int) set \<Rightarrow> grid" where
  "written \<sigma> g W = (\<lambda>r c. if (r, c) \<in> W then \<sigma> r c else g r c)"

definition rectSet :: "int \<Rightarrow> int \<Rightarrow> int \<Rightarrow> int \<Rightarrow> (int \<times> int) set" where
  "rectSet startX startY wd ht =
     {(r, c). startY \<le> r \<and> r < startY + ht \<and> startX \<le> c \<and> c < startX + wd}"

definition borderSet :: "int \<Rightarrow> int \<Rightarrow> int \<Rightarrow> int \<Rightarrow> (int \<times> int) set" where
  "borderSet startX startY wd ht =
     {(r, c). startY \<le> r \<and> r < startY + ht \<and> startX \<le> c \<and> c < startX + wd \<and>
              (r = startY \<or> r = startY + ht - 1 \<or> c = startX \<or> c = startX + wd - 1)}"

section \<open>The orbit of a point\<close>



section \<open>Sessions used as examples\<close>

text \<open>
  \<open>blankSession\<close> stands for freshly allocated memory.  The three viewports are the sessions
  reached from it by \<^verbatim>\<open>createMandelbrotSet\<close> and \<^verbatim>\<open>MandelbrotSet_setPosition\<close> at zoom 0:
  5 by 5 pixels around the origin, 3 by 3 pixels around \<open>(2, 0)\<close>, and a single pixel at
  \<open>(1, 1)\<close> with the iteration bound set to 2.
\<close>

definition blankSession :: mandelbrotSetData where
  "blankSession = \<lparr>width = 0, height = 0, center = \<lparr>coord_x = 0, coord_y = 0\<rparr>,
      resolution = 0, topEdge = 0, left = 0, pixelScores = (\<lambda>row col. - 1),
      maxIterations = 0, isGenerated = False\<rparr>"

definition viewport5 :: mandelbrotSetData where
  "viewport5 = \<lparr>width = 5, height = 5, center = \<lparr>coord_x = 0, coord_y = 0\<rparr>,
      resolution = 1, topEdge = 5 / 2, left = - 5 / 2, pixelScores = (\<lambda>row col. - 1),
      maxIterations = 255, isGenerated = False\<rparr>"






section \<open>Lemmas\<close>

subsection \<open>Counting loops\<close>

lemma forLoop_rule:
  assumes "i \<le> b" and "I i s"
    and step: "\<And>j t. i \<le> j \<Longrightarrow> j < b \<Longrightarrow> I j t \<Longrightarrow> \<exists>t'. body j t = Some t' \<and> I (j + 1) t'"
  shows "\<exists>t. forLoop i b body s = Some t \<and> I b t"
  using assms
proof (induction "nat (b - i)" arbitrary: i s)
  case 0
  then have "i = b" by simp
  with 0 show ?case by (simp add: forLoop.simps)
next
  case (Suc n)
  then have lt: "i < b" by linarith
  from Suc.prems(3)[of i s] lt Suc.prems(2)
  obtain t' where t': "body i s = Some t'" "I (i + 1) t'" by auto
  have "\<exists>t. forLoop (i + 1) b body t' = Some t \<and> I b t"
  proof (rule Suc.hyps(1))
    show "n = nat (b - (i + 1))" using Suc.hyps(2) by linarith
    show "i + 1 \<le> b" using lt by simp
    show "I (i + 1) t'" by (rule t'(2))
    show "\<And>j t. i + 1 \<le> j \<Longrightarrow> j < b \<Longrightarrow> I j t \<Longrightarrow> \<exists>t'. body j t = Some t' \<and> I (j + 1) t'"
      using Suc.prems(3) by simp
  qed
  then show ?case using lt t'(1) by (subst forLoop.simps) simp
qed



lemma sdiv2_nonneg: "0 \<le> (w::int) \<Longrightarrow> w sdiv 2 = w div 2"
  by (simp add: signed_divide_int_def sgn_if)

subsection \<open>The scorer returns\<close>

lemma escapeLoop_total:
  "score \<le> M \<Longrightarrow> \<exists>k. escapeLoop M c x y xs ys score = Some k \<and> score \<le> k \<and> k \<le> M"
proof (induction "nat (M - score)" arbitrary: score x y xs ys)
  case 0
  then have "score = M" by simp
  then show ?case by (simp add: escapeLoop.simps)
next
  case (Suc n)
  then have lt: "score < M" by linarith
  show ?case
  proof (cases "xs + ys < ESCAPE_RADIUS_SQ")
    case False
    then show ?thesis using lt by (simp add: escapeLoop.simps)
  next
    case True
    define x' where "x' = xs - ys + coord_x c"
    define y' where "y' = 2 * x * y + coord_y c"
    have "\<exists>k. escapeLoop M c x' y' (x' * x') (y' * y') (score + 1) = Some k
              \<and> score + 1 \<le> k \<and> k \<le> M"
      by (rule Suc.hyps(1)) (use Suc.hyps(2) lt in linarith)+
    then obtain k where "escapeLoop M c x' y' (x' * x') (y' * y') (score + 1) = Some k"
      "score + 1 \<le> k" "k \<le> M" by blast
    then show ?thesis using True lt
      by (subst escapeLoop.simps) (simp add: Let_def x'_def y'_def)
  qed
qed

lemma escapeScore_total:
  "0 \<le> maxIterations s \<Longrightarrow> \<exists>k. escapeScore s c = Some k \<and> 0 \<le> k \<and> k \<le> maxIterations s"
  using escapeLoop_total[of 0 "maxIterations s" c 0 0 0 0]
  by (auto simp: escapeScore_def)

lemma scored_scoreOf: "0 \<le> maxIterations s \<Longrightarrow> scored (scoreOf s) s"
  unfolding scored_def scoreOf_def
  using escapeScore_total[of s] by (metis option.simps(5))

subsection \<open>Refinement: the loops compute the grid-level functions\<close>

lemma scored_grid [simp]: "scored \<sigma> (s\<lparr>pixelScores := g\<rparr>) = scored \<sigma> s"
  by (simp add: scored_def escapeScore_def pixelCoord_def)

lemma grid_update_eq [simp]:
  "(s\<lparr>pixelScores := a\<rparr> = s\<lparr>pixelScores := b\<rparr>) = (a = b)"
proof
  assume "s\<lparr>pixelScores := a\<rparr> = s\<lparr>pixelScores := b\<rparr>"
  then have "pixelScores (s\<lparr>pixelScores := a\<rparr>) = pixelScores (s\<lparr>pixelScores := b\<rparr>)"
    by (rule arg_cong)
  then show "a = b" by simp
qed simp

lemma setPixel_refine:
  "scored \<sigma> s \<Longrightarrow>
   generateSetPixel (s\<lparr>pixelScores := g\<rparr>) row col = Some (s\<lparr>pixelScores := g(row := (g row)(col := \<sigma> row col))\<rparr>)"
proof -
  assume "scored \<sigma> s"
  then have "scored \<sigma> (s\<lparr>pixelScores := g\<rparr>)" by simp
  then have "escapeScore (s\<lparr>pixelScores := g\<rparr>) (pixelCoord (s\<lparr>pixelScores := g\<rparr>) row col) = Some (\<sigma> row col)"
    unfolding scored_def by blast
  then show ?thesis by (simp add: generateSetPixel_def setScore_def)
qed

lemma rowLoop_refine:
  assumes sc: "scored \<sigma> s" and w: "0 \<le> wd"
  shows "forLoop startX (startX + wd) (\<lambda>col f. generateSetPixel f row col) (s\<lparr>pixelScores := g\<rparr>)
         = Some (s\<lparr>pixelScores := (\<lambda>r c. if r = row \<and> startX \<le> c \<and> c < startX + wd then \<sigma> r c else g r c)\<rparr>)"
proof -
  let ?I = "\<lambda>j t. t = s\<lparr>pixelScores := (\<lambda>r c. if r = row \<and> startX \<le> c \<and> c < j then \<sigma> r c else g r c)\<rparr>"
  have "\<exists>t. forLoop startX (startX + wd) (\<lambda>col f. generateSetPixel f row col) (s\<lparr>pixelScores := g\<rparr>) = Some t
          \<and> ?I (startX + wd) t"
  proof (rule forLoop_rule[where I = ?I])
    show "startX \<le> startX + wd" using w by simp
    show "?I startX (s\<lparr>pixelScores := g\<rparr>)" by (simp add: fun_eq_iff)
    fix j t assume "startX \<le> j" "j < startX + wd" "?I j t"
    then show "\<exists>t'. generateSetPixel t row j = Some t' \<and> ?I (j + 1) t'"
      by (auto simp: setPixel_refine[OF sc] fun_eq_iff)
  qed
  then show ?thesis by auto
qed

lemma generateRectangle_refine:
  assumes sc: "scored \<sigma> s" and w: "0 \<le> wd" and h: "0 \<le> ht"
  shows "generateRectangle (s\<lparr>pixelScores := g\<rparr>) startX startY wd ht
         = Some (s\<lparr>pixelScores := gridRectangle \<sigma> g startX startY wd ht\<rparr>)"
proof -
  let ?I = "\<lambda>j t. t = s\<lparr>pixelScores := gridRectangle \<sigma> g startX startY wd (j - startY)\<rparr>"
  let ?body = "\<lambda>row. forLoop startX (startX + wd) (\<lambda>col f. generateSetPixel f row col)"
  have "\<exists>t. forLoop startY (startY + ht) ?body (s\<lparr>pixelScores := g\<rparr>) = Some t \<and> ?I (startY + ht) t"
  proof (rule forLoop_rule[where I = ?I])
    show "startY \<le> startY + ht" using h by simp
    show "?I startY (s\<lparr>pixelScores := g\<rparr>)" by (simp add: gridRectangle_def fun_eq_iff)
    fix j t assume "startY \<le> j" "j < startY + ht" "?I j t"
    then show "\<exists>t'. ?body j t = Some t' \<and> ?I (j + 1) t'"
      by (auto simp: rowLoop_refine[OF sc w] gridRectangle_def fun_eq_iff)
  qed
  then show ?thesis by (auto simp: generateRectangle_def)
qed

lemma fillInterior_refine:
  assumes w: "2 \<le> wd" and h: "2 \<le> ht"
  shows "fillInterior (s\<lparr>pixelScores := g\<rparr>) startX startY wd ht
         = Some (s\<lparr>pixelScores := gridFill g startX startY wd ht\<rparr>)"
proof -
  let ?v = "g startY startX"
  let ?inner = "\<lambda>row. forLoop (startX + 1) (startX + 1 + wd - 2)
              (\<lambda>col f. Some (setScore f row col (pixelScores f startY startX)))"
  have inner: "?inner row (s\<lparr>pixelScores := g'\<rparr>)
      = Some (s\<lparr>pixelScores := (\<lambda>r c. if r = row \<and> startX + 1 \<le> c \<and> c < startX + wd - 1 then ?v else g' r c)\<rparr>)"
    if "g' startY startX = ?v" "row \<noteq> startY" for row g'
  proof -
    let ?I = "\<lambda>j t. t = s\<lparr>pixelScores := (\<lambda>r c. if r = row \<and> startX + 1 \<le> c \<and> c < j then ?v else g' r c)\<rparr>"
    have "\<exists>t. ?inner row (s\<lparr>pixelScores := g'\<rparr>) = Some t \<and> ?I (startX + 1 + wd - 2) t"
    proof (rule forLoop_rule[where I = ?I])
      show "startX + 1 \<le> startX + 1 + wd - 2" using w by simp
      show "?I (startX + 1) (s\<lparr>pixelScores := g'\<rparr>)" by (simp add: fun_eq_iff)
      fix j t assume "startX + 1 \<le> j" "j < startX + 1 + wd - 2" "?I j t"
      then show "\<exists>t'. Some (setScore t row j (pixelScores t startY startX)) = Some t' \<and> ?I (j + 1) t'"
        using that by (auto simp: setScore_def fun_eq_iff)
    qed
    then show ?thesis by (auto simp: fun_eq_iff)
  qed
  let ?I = "\<lambda>j t. t = s\<lparr>pixelScores := gridFill g startX startY wd (j - startY + 1)\<rparr>"
  have "\<exists>t. forLoop (startY + 1) (startY + 1 + ht - 2) ?inner (s\<lparr>pixelScores := g\<rparr>) = Some t
            \<and> ?I (startY + 1 + ht - 2) t"
  proof (rule forLoop_rule[where I = ?I])
    show "startY + 1 \<le> startY + 1 + ht - 2" using h by simp
    show "?I (startY + 1) (s\<lparr>pixelScores := g\<rparr>)" by (simp add: gridFill_def fun_eq_iff)
    fix j t assume a: "startY + 1 \<le> j" "j < startY + 1 + ht - 2" "?I j t"
    have "gridFill g startX startY wd (j - startY + 1) startY startX = ?v"
      by (simp add: gridFill_def)
    from inner[of "gridFill g startX startY wd (j - startY + 1)" j, OF this] a
    show "\<exists>t'. ?inner j t = Some t' \<and> ?I (j + 1) t'"
      by (auto simp: gridFill_def fun_eq_iff)
  qed
  then show ?thesis by (auto simp: fillInterior_def Let_def)
qed

lemma scanLine_bounds: "scanLine f p j n = (b, stop) \<Longrightarrow> j \<le> stop \<and> stop \<le> j + int n \<and> (0 < n \<longrightarrow> j < stop)"
proof (induction n arbitrary: p j)
  case 0
  then show ?case by simp
next
  case (Suc n)
  show ?case
  proof (cases "j > 0 \<and> f j \<noteq> p")
    case True
    with Suc.prems show ?thesis by auto
  next
    case False
    with Suc.prems have "scanLine f (f j) (j + 1) n = (b, stop)" by auto
    from Suc.IH[OF this] show ?thesis by auto
  qed
qed

lemma blockRowLoop_exit:
  "blockRowLoop row cs wd False col s = Some (False, s)"
  by (simp add: blockRowLoop.simps)

lemma blockColLoop_exit:
  "blockColLoop col rs ht False row s = Some (False, s)"
  by (simp add: blockColLoop.simps)

lemma blockRowLoop_refine:
  assumes sc: "scored \<sigma> s"
  shows "col \<le> cs + wd \<Longrightarrow>
    blockRowLoop row cs wd True col (s\<lparr>pixelScores := g\<rparr>) =
      Some (case scanLine (\<sigma> row) (g row (col - 1)) col (nat (cs + wd - col)) of
              (b, stop) \<Rightarrow> (b, s\<lparr>pixelScores :=
                 (\<lambda>r c. if r = row \<and> col \<le> c \<and> c < stop then \<sigma> r c else g r c)\<rparr>))"
proof (induction "nat (cs + wd - col)" arbitrary: col g)
  case 0
  then have "col = cs + wd" by simp
  then show ?case by (simp add: blockRowLoop.simps fun_eq_iff)
next
  case (Suc n)
  then have lt: "col < cs + wd" and n: "nat (cs + wd - col) = Suc n" by linarith+
  let ?g' = "g(row := (g row)(col := \<sigma> row col))"
  have sp: "generateSetPixel (s\<lparr>pixelScores := g\<rparr>) row col = Some (s\<lparr>pixelScores := ?g'\<rparr>)"
    by (rule setPixel_refine[OF sc])
  show ?case
  proof (cases "col > 0 \<and> \<sigma> row col \<noteq> g row (col - 1)")
    case True
    then show ?thesis using lt sp n
      by (subst blockRowLoop.simps) (auto simp: blockRowLoop_exit fun_eq_iff)
  next
    case False
    have n': "n = nat (cs + wd - (col + 1))" using n by linarith
    have ih: "blockRowLoop row cs wd True (col + 1) (s\<lparr>pixelScores := ?g'\<rparr>) =
      Some (case scanLine (\<sigma> row) (?g' row (col + 1 - 1)) (col + 1) (nat (cs + wd - (col + 1))) of
              (b, stop) \<Rightarrow> (b, s\<lparr>pixelScores :=
                 (\<lambda>r c. if r = row \<and> col + 1 \<le> c \<and> c < stop then \<sigma> r c else ?g' r c)\<rparr>))"
      by (rule Suc.hyps(1)[OF n']) (use lt in simp)
    obtain b stop where bs: "scanLine (\<sigma> row) (\<sigma> row col) (col + 1) n = (b, stop)"
      by (cases "scanLine (\<sigma> row) (\<sigma> row col) (col + 1) n") auto
    from scanLine_bounds[OF bs] have st: "col + 1 \<le> stop" by simp
    have eq: "(\<lambda>r c. if r = row \<and> col + 1 \<le> c \<and> c < stop then \<sigma> r c else ?g' r c)
            = (\<lambda>r c. if r = row \<and> col \<le> c \<and> c < stop then \<sigma> r c else g r c)"
      using st by (auto simp: fun_eq_iff)
    have cond: "\<not> (col > 0 \<and> ?g' row col \<noteq> ?g' row (col - 1))" using False by auto
    have lhs: "blockRowLoop row cs wd True col (s\<lparr>pixelScores := g\<rparr>)
             = blockRowLoop row cs wd True (col + 1) (s\<lparr>pixelScores := ?g'\<rparr>)"
      using lt sp cond by (subst blockRowLoop.simps) auto
    have N1: "nat (cs + wd - (col + 1)) = n" using n by linarith
    have sl: "scanLine (\<sigma> row) (g row (col - 1)) col (Suc n) = (b, stop)"
      using False bs by auto
    have p: "?g' row (col + 1 - 1) = \<sigma> row col" by simp
    show ?thesis
      unfolding lhs ih N1 n sl p bs using eq by simp
  qed
qed

lemma generateBlockRow_refine:
  assumes "scored \<sigma> s" "0 \<le> wd"
  shows "generateBlockRow (s\<lparr>pixelScores := g\<rparr>) row cs wd =
     Some (case gridBlockRow \<sigma> g row cs wd of (b, g') \<Rightarrow> (b, s\<lparr>pixelScores := g'\<rparr>))"
  using blockRowLoop_refine[OF assms(1), of cs cs wd row g] assms(2)
  by (simp add: generateBlockRow_def gridBlockRow_def split: prod.splits)

lemma blockColLoop_refine:
  assumes sc: "scored \<sigma> s"
  shows "row \<le> rs + ht \<Longrightarrow>
    blockColLoop col rs ht True row (s\<lparr>pixelScores := g\<rparr>) =
      Some (case scanLine (\<lambda>r. \<sigma> r col) (g (row - 1) col) row (nat (rs + ht - row)) of
              (b, stop) \<Rightarrow> (b, s\<lparr>pixelScores :=
                 (\<lambda>r c. if c = col \<and> row \<le> r \<and> r < stop then \<sigma> r c else g r c)\<rparr>))"
proof (induction "nat (rs + ht - row)" arbitrary: row g)
  case 0
  then have "row = rs + ht" by simp
  then show ?case by (simp add: blockColLoop.simps fun_eq_iff)
next
  case (Suc n)
  then have lt: "row < rs + ht" and n: "nat (rs + ht - row) = Suc n" by linarith+
  let ?g' = "g(row := (g row)(col := \<sigma> row col))"
  have sp: "generateSetPixel (s\<lparr>pixelScores := g\<rparr>) row col = Some (s\<lparr>pixelScores := ?g'\<rparr>)"
    by (rule setPixel_refine[OF sc])
  show ?case
  proof (cases "row > 0 \<and> \<sigma> row col \<noteq> g (row - 1) col")
    case True
    then show ?thesis using lt sp n
      by (subst blockColLoop.simps) (auto simp: blockColLoop_exit fun_eq_iff)
  next
    case False
    have n': "n = nat (rs + ht - (row + 1))" using n by linarith
    have ih: "blockColLoop col rs ht True (row + 1) (s\<lparr>pixelScores := ?g'\<rparr>) =
      Some (case scanLine (\<lambda>r. \<sigma> r col) (?g' (row + 1 - 1) col) (row + 1) (nat (rs + ht - (row + 1))) of
              (b, stop) \<Rightarrow> (b, s\<lparr>pixelScores :=
                 (\<lambda>r c. if c = col \<and> row + 1 \<le> r \<and> r < stop then \<sigma> r c else ?g' r c)\<rparr>))"
      by (rule Suc.hyps(1)[OF n']) (use lt in simp)
    obtain b stop where bs: "scanLine (\<lambda>r. \<sigma> r col) (\<sigma> row col) (row + 1) n = (b, stop)"
      by (cases "scanLine (\<lambda>r. \<sigma> r col) (\<sigma> row col) (row + 1) n") auto
    from scanLine_bounds[OF bs] have st: "row + 1 \<le> stop" by simp
    have eq: "(\<lambda>r c. if c = col \<and> row + 1 \<le> r \<and> r < stop then \<sigma> r c else ?g' r c)
            = (\<lambda>r c. if c = col \<and> row \<le> r \<and> r < stop then \<sigma> r c else g r c)"
      using st by (auto simp: fun_eq_iff)
    have cond: "\<not> (row > 0 \<and> ?g' row col \<noteq> ?g' (row - 1) col)" using False by auto
    have lhs: "blockColLoop col rs ht True row (s\<lparr>pixelScores := g\<rparr>)
             = blockColLoop col rs ht True (row + 1) (s\<lparr>pixelScores := ?g'\<rparr>)"
      using lt sp cond by (subst blockColLoop.simps) auto
    have N1: "nat (rs + ht - (row + 1)) = n" using n by linarith
    have sl: "scanLine (\<lambda>r. \<sigma> r col) (g (row - 1) col) row (Suc n) = (b, stop)"
      using False bs by auto
    have p: "?g' (row + 1 - 1) col = \<sigma> row col" by simp
    show ?thesis
      unfolding lhs ih N1 n sl p bs using eq by simp
  qed
qed

lemma generateBlockCol_refine:
  assumes "scored \<sigma> s" "0 \<le> ht"
  shows "generateBlockCol (s\<lparr>pixelScores := g\<rparr>) col rs ht =
     Some (case gridBlockCol \<sigma> g col rs ht of (b, g') \<Rightarrow> (b, s\<lparr>pixelScores := g'\<rparr>))"
  using blockColLoop_refine[OF assms(1), of rs rs ht col g] assms(2)
  by (simp add: generateBlockCol_def gridBlockCol_def split: prod.splits)

lemma checkBorders_refine:
  assumes sc: "scored \<sigma> s" and w: "0 \<le> wd" and h: "2 \<le> ht"
  shows "checkBorders (s\<lparr>pixelScores := g\<rparr>) startX startY wd ht =
     Some (case gridBorders \<sigma> g startX startY wd ht of (b, g') \<Rightarrow> (b, s\<lparr>pixelScores := g'\<rparr>))"
proof -
  have h': "0 \<le> ht - 2" using h by simp
  show ?thesis
    unfolding checkBorders_def gridBorders_def Let_def andAlso_def gridAndAlso_def
    by (simp add: generateBlockRow_refine[OF sc w] generateBlockCol_refine[OF sc h']
          split: prod.splits)
qed

lemma generateDivideAndConquer_refine:
  assumes sc: "scored \<sigma> s"
  shows "0 \<le> wd \<Longrightarrow> 0 \<le> ht \<Longrightarrow>
     generateDivideAndConquer (s\<lparr>pixelScores := g\<rparr>) startX startY wd ht =
       Some (s\<lparr>pixelScores := gridDivideAndConquer \<sigma> g startX startY wd ht\<rparr>)"
proof (induction "nat wd" arbitrary: wd ht startX startY g rule: less_induct)
  case less
  show ?case
  proof (cases "wd < 3 \<or> ht < 3")
    case True
    then show ?thesis
      using generateRectangle_refine[OF sc less.prems, of g startX startY]
      by (subst generateDivideAndConquer.simps, subst gridDivideAndConquer.simps) simp
  next
    case False
    then have w3: "3 \<le> wd" and h3: "3 \<le> ht" by auto
    let ?nw = "wd sdiv 2" and ?nh = "ht sdiv 2"
    have nw: "?nw = wd div 2" and nh: "?nh = ht div 2"
      using w3 h3 by (simp_all add: sdiv2_nonneg)
    have m1: "nat ?nw < nat wd" "0 \<le> ?nw" and m2: "nat (wd - ?nw) < nat wd" "0 \<le> wd - ?nw"
      and hh: "0 \<le> ?nh" "0 \<le> ht - ?nh"
      using w3 h3 unfolding nw nh by linarith+
    have ih1: "generateDivideAndConquer (s\<lparr>pixelScores := g'\<rparr>) X Y ?nw H =
       Some (s\<lparr>pixelScores := gridDivideAndConquer \<sigma> g' X Y ?nw H\<rparr>)" if "0 \<le> H" for g' X Y H
      by (rule less.hyps[OF m1(1) m1(2) that])
    have ih2: "generateDivideAndConquer (s\<lparr>pixelScores := g'\<rparr>) X Y (wd - ?nw) H =
       Some (s\<lparr>pixelScores := gridDivideAndConquer \<sigma> g' X Y (wd - ?nw) H\<rparr>)" if "0 \<le> H" for g' X Y H
      by (rule less.hyps[OF m2(1) m2(2) that])
    have cb: "checkBorders (s\<lparr>pixelScores := g\<rparr>) startX startY wd ht =
       Some (case gridBorders \<sigma> g startX startY wd ht of (b, g') \<Rightarrow> (b, s\<lparr>pixelScores := g'\<rparr>))"
      by (rule checkBorders_refine[OF sc]) (use w3 h3 in simp_all)
    have fi: "fillInterior (s\<lparr>pixelScores := g'\<rparr>) startX startY wd ht
         = Some (s\<lparr>pixelScores := gridFill g' startX startY wd ht\<rparr>)" for g'
      by (rule fillInterior_refine) (use w3 h3 in simp_all)
    obtain b g0 where gb: "gridBorders \<sigma> g startX startY wd ht = (b, g0)"
      by (cases "gridBorders \<sigma> g startX startY wd ht") auto
    have cb': "checkBorders (s\<lparr>pixelScores := g\<rparr>) startX startY wd ht = Some (b, s\<lparr>pixelScores := g0\<rparr>)"
      using cb gb by simp
    show ?thesis
    proof (cases "b \<and> g0 startY startX \<noteq> 0")
      case True
      have l: "generateDivideAndConquer (s\<lparr>pixelScores := g\<rparr>) startX startY wd ht
            = fillInterior (s\<lparr>pixelScores := g0\<rparr>) startX startY wd ht"
        using False True by (subst generateDivideAndConquer.simps) (simp add: cb')
      have r: "gridDivideAndConquer \<sigma> g startX startY wd ht = gridFill g0 startX startY wd ht"
        using False True by (subst gridDivideAndConquer.simps) (simp add: gb)
      show ?thesis unfolding l r by (rule fi)
    next
      case nf: False
      define g1 where "g1 = gridDivideAndConquer \<sigma> g0 startX startY ?nw ?nh"
      define g2 where "g2 = gridDivideAndConquer \<sigma> g1 (startX + ?nw) startY (wd - ?nw) ?nh"
      define g3 where "g3 = gridDivideAndConquer \<sigma> g2 startX (startY + ?nh) ?nw (ht - ?nh)"
      define g4 where "g4 = gridDivideAndConquer \<sigma> g3 (startX + ?nw) (startY + ?nh) (wd - ?nw) (ht - ?nh)"
      have c1: "generateDivideAndConquer (s\<lparr>pixelScores := g0\<rparr>) startX startY ?nw ?nh = Some (s\<lparr>pixelScores := g1\<rparr>)"
        unfolding g1_def by (rule ih1[OF hh(1)])
      have c2: "generateDivideAndConquer (s\<lparr>pixelScores := g1\<rparr>) (startX + ?nw) startY (wd - ?nw) ?nh = Some (s\<lparr>pixelScores := g2\<rparr>)"
        unfolding g2_def by (rule ih2[OF hh(1)])
      have c3: "generateDivideAndConquer (s\<lparr>pixelScores := g2\<rparr>) startX (startY + ?nh) ?nw (ht - ?nh) = Some (s\<lparr>pixelScores := g3\<rparr>)"
        unfolding g3_def by (rule ih1[OF hh(2)])
      have c4: "generateDivideAndConquer (s\<lparr>pixelScores := g3\<rparr>) (startX + ?nw) (startY + ?nh) (wd - ?nw) (ht - ?nh) = Some (s\<lparr>pixelScores := g4\<rparr>)"
        unfolding g4_def by (rule ih2[OF hh(2)])
      have nf': "(b \<and> g0 startY startX \<noteq> 0) = False" using nf by simp
      have r: "gridDivideAndConquer \<sigma> g startX startY wd ht = g4"
        using False unfolding g4_def g3_def g2_def g1_def
        by (subst gridDivideAndConquer.simps) (simp add: gb Let_def nf')
      have l: "generateDivideAndConquer (s\<lparr>pixelScores := g\<rparr>) startX startY wd ht = Some (s\<lparr>pixelScores := g4\<rparr>)"
        using False by (subst generateDivideAndConquer.simps) (simp add: cb' Let_def c1 c2 c3 c4 nf')
      show ?thesis unfolding l r ..
    qed
  qed
qed

subsection \<open>Scanning a line\<close>

lemma written_apply: "written \<sigma> g W r c = (if (r, c) \<in> W then \<sigma> r c else g r c)"
  by (simp add: written_def)

lemma written_written: "written \<sigma> (written \<sigma> g W1) W2 = written \<sigma> g (W1 \<union> W2)"
  by (auto simp: written_def fun_eq_iff)

lemma written_empty: "written \<sigma> g {} = g"
  by (simp add: written_def)

lemma gridRectangle_written: "gridRectangle \<sigma> g X Y w h = written \<sigma> g (rectSet X Y w h)"
  by (auto simp: gridRectangle_def written_def rectSet_def fun_eq_iff)

lemma scanLine_true_stop: "scanLine f p j n = (True, stop) \<Longrightarrow> stop = j + int n"
proof (induction n arbitrary: p j)
  case 0
  then show ?case by simp
next
  case (Suc n)
  then have "scanLine f (f j) (j + 1) n = (True, stop)" by (auto split: if_splits)
  from Suc.IH[OF this] show ?case by simp
qed

lemma scanLine_pred: "(0 < j \<longrightarrow> p = p') \<Longrightarrow> scanLine f p j n = scanLine f p' j n"
  by (cases n) auto


lemma gridBlockRow_two:
  assumes "0 < cs \<longrightarrow> g1 row (cs - 1) = g2 row (cs - 1)" and "0 \<le> wd"
  shows "\<exists>b stop. cs \<le> stop \<and> stop \<le> cs + wd \<and> (0 < wd \<longrightarrow> cs < stop) \<and> (b \<longrightarrow> stop = cs + wd) \<and>
           gridBlockRow \<sigma> g1 row cs wd = (b, written \<sigma> g1 ({row} \<times> {cs..<stop})) \<and>
           gridBlockRow \<sigma> g2 row cs wd = (b, written \<sigma> g2 ({row} \<times> {cs..<stop}))"
proof -
  obtain b stop where bs: "scanLine (\<sigma> row) (g1 row (cs - 1)) cs (nat wd) = (b, stop)"
    by (cases "scanLine (\<sigma> row) (g1 row (cs - 1)) cs (nat wd)") auto
  have bs2: "scanLine (\<sigma> row) (g2 row (cs - 1)) cs (nat wd) = (b, stop)"
    using bs scanLine_pred[of cs "g1 row (cs - 1)" "g2 row (cs - 1)" "\<sigma> row" "nat wd"] assms(1)
    by simp
  have bd: "cs \<le> stop \<and> stop \<le> cs + wd \<and> (0 < wd \<longrightarrow> cs < stop)"
    using scanLine_bounds[OF bs] assms(2) by auto
  have tr: "b \<longrightarrow> stop = cs + wd" using scanLine_true_stop[of "\<sigma> row" _ cs "nat wd" stop] bs assms(2) by auto
  have "gridBlockRow \<sigma> g1 row cs wd = (b, written \<sigma> g1 ({row} \<times> {cs..<stop}))"
    by (auto simp: gridBlockRow_def bs written_def fun_eq_iff)
  moreover have "gridBlockRow \<sigma> g2 row cs wd = (b, written \<sigma> g2 ({row} \<times> {cs..<stop}))"
    by (auto simp: gridBlockRow_def bs2 written_def fun_eq_iff)
  ultimately show ?thesis using bd tr by blast
qed

lemma gridBlockCol_two:
  assumes "0 < rs \<longrightarrow> g1 (rs - 1) col = g2 (rs - 1) col" and "0 \<le> ht"
  shows "\<exists>b stop. rs \<le> stop \<and> stop \<le> rs + ht \<and> (0 < ht \<longrightarrow> rs < stop) \<and> (b \<longrightarrow> stop = rs + ht) \<and>
           gridBlockCol \<sigma> g1 col rs ht = (b, written \<sigma> g1 ({rs..<stop} \<times> {col})) \<and>
           gridBlockCol \<sigma> g2 col rs ht = (b, written \<sigma> g2 ({rs..<stop} \<times> {col}))"
proof -
  obtain b stop where bs: "scanLine (\<lambda>r. \<sigma> r col) (g1 (rs - 1) col) rs (nat ht) = (b, stop)"
    by (cases "scanLine (\<lambda>r. \<sigma> r col) (g1 (rs - 1) col) rs (nat ht)") auto
  have bs2: "scanLine (\<lambda>r. \<sigma> r col) (g2 (rs - 1) col) rs (nat ht) = (b, stop)"
    using bs scanLine_pred[of rs "g1 (rs - 1) col" "g2 (rs - 1) col" "\<lambda>r. \<sigma> r col" "nat ht"] assms(1)
    by simp
  have bd: "rs \<le> stop \<and> stop \<le> rs + ht \<and> (0 < ht \<longrightarrow> rs < stop)"
    using scanLine_bounds[OF bs] assms(2) by auto
  have tr: "b \<longrightarrow> stop = rs + ht" using scanLine_true_stop[of "\<lambda>r. \<sigma> r col" _ rs "nat ht" stop] bs assms(2) by auto
  have "gridBlockCol \<sigma> g1 col rs ht = (b, written \<sigma> g1 ({rs..<stop} \<times> {col}))"
    by (auto simp: gridBlockCol_def bs written_def fun_eq_iff)
  moreover have "gridBlockCol \<sigma> g2 col rs ht = (b, written \<sigma> g2 ({rs..<stop} \<times> {col}))"
    by (auto simp: gridBlockCol_def bs2 written_def fun_eq_iff)
  ultimately show ?thesis using bd tr by blast
qed

subsection \<open>The shift of setPosition\<close>


subsection \<open>The border evaluation on two grids\<close>

lemma borderSet_subset_rectSet: "borderSet X Y w h \<subseteq> rectSet X Y w h"
  by (auto simp: borderSet_def rectSet_def)

lemma gridBorders_two:
  assumes la: "0 < X \<longrightarrow> (\<forall>r. Y \<le> r \<and> r < Y + h \<longrightarrow> g1 r (X - 1) = g2 r (X - 1))"
    and w: "1 \<le> w" and h: "2 \<le> h"
  shows "\<exists>b W. gridBorders \<sigma> g1 X Y w h = (b, written \<sigma> g1 W) \<and>
               gridBorders \<sigma> g2 X Y w h = (b, written \<sigma> g2 W) \<and>
               W \<subseteq> borderSet X Y w h \<and> (Y, X) \<in> W \<and> (b \<longrightarrow> W = borderSet X Y w h)"
proof -
  have p1: "0 < X \<longrightarrow> g1 Y (X - 1) = g2 Y (X - 1)" using la h by simp
  from gridBlockRow_two[of X g1 Y g2 w \<sigma>] p1 w
  obtain b1 s1 where s1: "X < s1" "s1 \<le> X + w" "b1 \<longrightarrow> s1 = X + w"
    and r1: "gridBlockRow \<sigma> g1 Y X w = (b1, written \<sigma> g1 ({Y} \<times> {X..<s1}))"
            "gridBlockRow \<sigma> g2 Y X w = (b1, written \<sigma> g2 ({Y} \<times> {X..<s1}))"
    by auto
  let ?W1 = "{Y} \<times> {X..<s1}"
  have W1: "?W1 \<subseteq> borderSet X Y w h" "(Y, X) \<in> ?W1"
    using s1 h by (auto simp: borderSet_def)
  show ?thesis
  proof (cases b1)
    case False
    then have "gridBorders \<sigma> g1 X Y w h = (False, written \<sigma> g1 ?W1)"
              "gridBorders \<sigma> g2 X Y w h = (False, written \<sigma> g2 ?W1)"
      by (simp_all add: gridBorders_def gridAndAlso_def r1)
    then show ?thesis using W1 by blast
  next
    case b1: True
    then have s1e: "s1 = X + w" using s1 by simp
    have p2: "0 < X \<longrightarrow> written \<sigma> g1 ?W1 (Y + h - 1) (X - 1) = written \<sigma> g2 ?W1 (Y + h - 1) (X - 1)"
      using la h by (simp add: written_apply)
    from gridBlockRow_two[of X "written \<sigma> g1 ?W1" "Y + h - 1" "written \<sigma> g2 ?W1" w \<sigma>] p2 w
    obtain b2 s2 where s2: "X < s2" "s2 \<le> X + w" "b2 \<longrightarrow> s2 = X + w"
      and r2: "gridBlockRow \<sigma> (written \<sigma> g1 ?W1) (Y + h - 1) X w
                 = (b2, written \<sigma> (written \<sigma> g1 ?W1) ({Y + h - 1} \<times> {X..<s2}))"
              "gridBlockRow \<sigma> (written \<sigma> g2 ?W1) (Y + h - 1) X w
                 = (b2, written \<sigma> (written \<sigma> g2 ?W1) ({Y + h - 1} \<times> {X..<s2}))"
      by auto
    let ?W2 = "?W1 \<union> {Y + h - 1} \<times> {X..<s2}"
    have W2: "?W2 \<subseteq> borderSet X Y w h" "(Y, X) \<in> ?W2"
      using s1 s2 h by (auto simp: borderSet_def)
    show ?thesis
    proof (cases b2)
      case False
      then have "gridBorders \<sigma> g1 X Y w h = (False, written \<sigma> g1 ?W2)"
                "gridBorders \<sigma> g2 X Y w h = (False, written \<sigma> g2 ?W2)"
        using b1 by (simp_all add: gridBorders_def gridAndAlso_def r1 r2 written_written)
      then show ?thesis using W2 by blast
    next
      case b2: True
      then have s2e: "s2 = X + w" using s2 by simp
      have p3: "0 < Y + 1 \<longrightarrow> written \<sigma> g1 ?W2 (Y + 1 - 1) X = written \<sigma> g2 ?W2 (Y + 1 - 1) X"
        using s1 by (simp add: written_apply)
      have h2: "0 \<le> h - 2" using h by simp
      from gridBlockCol_two[of "Y + 1" "written \<sigma> g1 ?W2" X "written \<sigma> g2 ?W2" "h - 2" \<sigma>] p3 h2
      obtain b3 s3 where s3: "Y + 1 \<le> s3" "s3 \<le> Y + 1 + (h - 2)" "b3 \<longrightarrow> s3 = Y + 1 + (h - 2)"
        and r3: "gridBlockCol \<sigma> (written \<sigma> g1 ?W2) X (Y + 1) (h - 2)
                   = (b3, written \<sigma> (written \<sigma> g1 ?W2) ({Y + 1..<s3} \<times> {X}))"
                "gridBlockCol \<sigma> (written \<sigma> g2 ?W2) X (Y + 1) (h - 2)
                   = (b3, written \<sigma> (written \<sigma> g2 ?W2) ({Y + 1..<s3} \<times> {X}))"
        by auto
      let ?W3 = "?W2 \<union> {Y + 1..<s3} \<times> {X}"
      have W3: "?W3 \<subseteq> borderSet X Y w h" "(Y, X) \<in> ?W3"
        using s1 s2 s3 h w by (auto simp: borderSet_def)
      show ?thesis
      proof (cases b3)
        case False
        then have "gridBorders \<sigma> g1 X Y w h = (False, written \<sigma> g1 ?W3)"
                  "gridBorders \<sigma> g2 X Y w h = (False, written \<sigma> g2 ?W3)"
          using b1 b2 by (simp_all add: gridBorders_def gridAndAlso_def r1 r2 r3 written_written)
        then show ?thesis using W3 by blast
      next
        case b3: True
        then have s3e: "s3 = Y + h - 1" using s3 by simp
        have p4: "0 < Y + 1 \<longrightarrow> written \<sigma> g1 ?W3 (Y + 1 - 1) (X + w - 1)
                     = written \<sigma> g2 ?W3 (Y + 1 - 1) (X + w - 1)"
          using s1e w by (simp add: written_apply)
        from gridBlockCol_two[of "Y + 1" "written \<sigma> g1 ?W3" "X + w - 1" "written \<sigma> g2 ?W3" "h - 2" \<sigma>] p4 h2
        obtain b4 s4 where s4: "Y + 1 \<le> s4" "s4 \<le> Y + 1 + (h - 2)" "b4 \<longrightarrow> s4 = Y + 1 + (h - 2)"
          and r4: "gridBlockCol \<sigma> (written \<sigma> g1 ?W3) (X + w - 1) (Y + 1) (h - 2)
                     = (b4, written \<sigma> (written \<sigma> g1 ?W3) ({Y + 1..<s4} \<times> {X + w - 1}))"
                  "gridBlockCol \<sigma> (written \<sigma> g2 ?W3) (X + w - 1) (Y + 1) (h - 2)
                     = (b4, written \<sigma> (written \<sigma> g2 ?W3) ({Y + 1..<s4} \<times> {X + w - 1}))"
          by auto
        let ?W4 = "?W3 \<union> {Y + 1..<s4} \<times> {X + w - 1}"
        have W4: "?W4 \<subseteq> borderSet X Y w h" "(Y, X) \<in> ?W4"
          using s1 s2 s3 s4 h w by (auto simp: borderSet_def)
        have full: "b4 \<longrightarrow> ?W4 = borderSet X Y w h"
        proof
          assume b4
          then have s4e: "s4 = Y + h - 1" using s4 by simp
          show "?W4 = borderSet X Y w h"
            unfolding s1e s2e s3e s4e using h w by (auto simp: borderSet_def)
        qed
        have "gridBorders \<sigma> g1 X Y w h = (b4, written \<sigma> g1 ?W4)"
             "gridBorders \<sigma> g2 X Y w h = (b4, written \<sigma> g2 ?W4)"
          using b1 b2 b3
          by (simp_all add: gridBorders_def gridAndAlso_def r1 r2 r3 r4 written_written)
        then show ?thesis using W4 full by blast
      qed
    qed
  qed
qed

lemma gridBorders_one:
  assumes w: "1 \<le> w" and h: "2 \<le> h"
  shows "\<exists>b W. gridBorders \<sigma> g X Y w h = (b, written \<sigma> g W) \<and>
               W \<subseteq> borderSet X Y w h \<and> (Y, X) \<in> W \<and> (b \<longrightarrow> W = borderSet X Y w h)"
  using gridBorders_two[of X Y h g g w \<sigma>] assms by auto

subsection \<open>The divide-and-conquer recursion on grids\<close>

lemma gridDivideAndConquer_small:
  "wd < 3 \<or> ht < 3 \<Longrightarrow>
   gridDivideAndConquer \<sigma> g X Y wd ht = written \<sigma> g (rectSet X Y wd ht)"
  by (subst gridDivideAndConquer.simps) (simp add: gridRectangle_written)

lemma gridDivideAndConquer_rec:
  assumes "3 \<le> wd" "3 \<le> ht" "gridBorders \<sigma> g X Y wd ht = (b, g0)"
  shows "gridDivideAndConquer \<sigma> g X Y wd ht =
     (if b \<and> g0 Y X \<noteq> 0 then gridFill g0 X Y wd ht
      else gridDivideAndConquer \<sigma>
             (gridDivideAndConquer \<sigma>
               (gridDivideAndConquer \<sigma>
                 (gridDivideAndConquer \<sigma> g0 X Y (wd div 2) (ht div 2))
                 (X + wd div 2) Y (wd - wd div 2) (ht div 2))
               X (Y + ht div 2) (wd div 2) (ht - ht div 2))
             (X + wd div 2) (Y + ht div 2) (wd - wd div 2) (ht - ht div 2))"
proof -
  have n: "wd sdiv 2 = wd div 2" "ht sdiv 2 = ht div 2"
    using assms(1,2) by (simp_all add: sdiv2_nonneg)
  have c: "\<not> (wd < 3 \<or> ht < 3)" using assms(1,2) by simp
  show ?thesis
    by (subst gridDivideAndConquer.simps) (simp only: c if_False assms(3) prod.case Let_def n)
qed

lemma gridDivideAndConquer_prune:
  assumes "3 \<le> wd" "3 \<le> ht" "gridBorders \<sigma> g X Y wd ht = (b, g0)" "b \<and> g0 Y X \<noteq> 0"
  shows "gridDivideAndConquer \<sigma> g X Y wd ht = gridFill g0 X Y wd ht"
  unfolding gridDivideAndConquer_rec[OF assms(1-3)] by (rule if_P[OF assms(4)])

lemma gridDivideAndConquer_split:
  assumes "3 \<le> wd" "3 \<le> ht" "gridBorders \<sigma> g X Y wd ht = (b, g0)" "\<not> (b \<and> g0 Y X \<noteq> 0)"
    and "nw = wd div 2" "nh = ht div 2"
  shows "gridDivideAndConquer \<sigma> g X Y wd ht =
     gridDivideAndConquer \<sigma> (gridDivideAndConquer \<sigma> (gridDivideAndConquer \<sigma>
       (gridDivideAndConquer \<sigma> g0 X Y nw nh)
       (X + nw) Y (wd - nw) nh) X (Y + nh) nw (ht - nh)) (X + nw) (Y + nh) (wd - nw) (ht - nh)"
  unfolding gridDivideAndConquer_rec[OF assms(1-3)] assms(5,6) by (rule if_not_P[OF assms(4)])

lemma gridDivideAndConquer_frame:
  "(r, c) \<notin> rectSet X Y wd ht \<Longrightarrow> gridDivideAndConquer \<sigma> g X Y wd ht r c = g r c"
proof (induction "nat wd" arbitrary: wd ht X Y g rule: less_induct)
  case less
  show ?case
  proof (cases "wd < 3 \<or> ht < 3")
    case True
    then show ?thesis using less.prems
      by (simp add: gridDivideAndConquer_small written_apply)
  next
    case False
    then have w3: "3 \<le> wd" and h3: "3 \<le> ht" by auto
    define nw nh where "nw = wd div 2" and "nh = ht div 2"
    have nb: "1 \<le> nw" "nw < wd" "1 \<le> nh" "nh < ht"
      using w3 h3 unfolding nw_def nh_def by linarith+
    from gridBorders_one[of wd ht \<sigma> g X Y] w3 h3
    obtain b W where gb: "gridBorders \<sigma> g X Y wd ht = (b, written \<sigma> g W)"
      and W: "W \<subseteq> borderSet X Y wd ht" by auto
    have nW: "(r, c) \<notin> W" using W borderSet_subset_rectSet less.prems by blast
    have m: "nat nw < nat wd" "nat (wd - nw) < nat wd" using nb by linarith+
    have q: "(r, c) \<notin> rectSet X Y nw nh" "(r, c) \<notin> rectSet (X + nw) Y (wd - nw) nh"
      "(r, c) \<notin> rectSet X (Y + nh) nw (ht - nh)"
      "(r, c) \<notin> rectSet (X + nw) (Y + nh) (wd - nw) (ht - nh)"
      using less.prems nb by (auto simp: rectSet_def)
    have ni: "\<not> (Y + 1 \<le> r \<and> r < Y + ht - 1 \<and> X + 1 \<le> c \<and> c < X + wd - 1)"
      using less.prems by (auto simp: rectSet_def)
    show ?thesis
      unfolding gridDivideAndConquer_rec[OF w3 h3 gb] nw_def[symmetric] nh_def[symmetric]
      using less.hyps[OF m(1) q(1)] less.hyps[OF m(2) q(2)] less.hyps[OF m(1) q(3)]
        less.hyps[OF m(2) q(4)] nW ni
      by (auto simp: gridFill_def written_apply)
  qed
qed

lemma quad_TL:
  assumes "1 \<le> nw" "1 \<le> nh" "(r, c) \<in> rectSet X Y nw nh"
  shows "gridDivideAndConquer \<sigma> (gridDivideAndConquer \<sigma> (gridDivideAndConquer \<sigma> g
           (X + nw) Y wr nh) X (Y + nh) nw hb) (X + nw) (Y + nh) wr hb r c = g r c"
proof -
  have "(r, c) \<notin> rectSet (X + nw) Y wr nh" "(r, c) \<notin> rectSet X (Y + nh) nw hb"
    "(r, c) \<notin> rectSet (X + nw) (Y + nh) wr hb"
    using assms by (auto simp: rectSet_def)
  then show ?thesis by (simp add: gridDivideAndConquer_frame)
qed

lemma quad_TR:
  assumes "1 \<le> nw" "1 \<le> nh" "(r, c) \<in> rectSet (X + nw) Y wr nh"
  shows "gridDivideAndConquer \<sigma> (gridDivideAndConquer \<sigma> g
            X (Y + nh) nw hb) (X + nw) (Y + nh) wr hb r c = g r c"
proof -
  have "(r, c) \<notin> rectSet X (Y + nh) nw hb" "(r, c) \<notin> rectSet (X + nw) (Y + nh) wr hb"
    using assms by (auto simp: rectSet_def)
  then show ?thesis by (simp add: gridDivideAndConquer_frame)
qed

lemma quad_BL:
  assumes "1 \<le> nw" "1 \<le> nh" "(r, c) \<in> rectSet X (Y + nh) nw hb"
  shows "gridDivideAndConquer \<sigma> g (X + nw) (Y + nh) wr hb r c = g r c"
proof -
  have "(r, c) \<notin> rectSet (X + nw) (Y + nh) wr hb"
    using assms by (auto simp: rectSet_def)
  then show ?thesis by (simp add: gridDivideAndConquer_frame)
qed

lemma rect_quadrants:
  assumes "1 \<le> nw" "nw < wd" "1 \<le> nh" "nh < ht" "(r, c) \<in> rectSet X Y wd ht"
  shows "(r, c) \<in> rectSet X Y nw nh \<or> (r, c) \<in> rectSet (X + nw) Y (wd - nw) nh \<or>
         (r, c) \<in> rectSet X (Y + nh) nw (ht - nh) \<or>
         (r, c) \<in> rectSet (X + nw) (Y + nh) (wd - nw) (ht - nh)"
  using assms by (auto simp: rectSet_def)




lemma gridDivideAndConquer_agree:
  "(0 < X \<longrightarrow> (\<forall>r. Y \<le> r \<and> r < Y + ht \<longrightarrow> g1 r (X - 1) = g2 r (X - 1))) \<Longrightarrow>
   (r, c) \<in> rectSet X Y wd ht \<Longrightarrow>
   gridDivideAndConquer \<sigma> g1 X Y wd ht r c = gridDivideAndConquer \<sigma> g2 X Y wd ht r c"
proof (induction "nat wd" arbitrary: wd ht X Y g1 g2 r c rule: less_induct)
  case less
  note la = less.prems(1) and rc = less.prems(2)
  show ?case
  proof (cases "wd < 3 \<or> ht < 3")
    case True
    then show ?thesis using rc
      by (simp add: gridDivideAndConquer_small written_apply)
  next
    case False
    then have w3: "3 \<le> wd" and h3: "3 \<le> ht" by auto
    define nw nh where "nw = wd div 2" and "nh = ht div 2"
    have nb: "1 \<le> nw" "nw < wd" "1 \<le> nh" "nh < ht"
      using w3 h3 unfolding nw_def nh_def by linarith+
    from gridBorders_two[of X Y ht g1 g2 wd \<sigma>] la w3 h3
    obtain b W where gb: "gridBorders \<sigma> g1 X Y wd ht = (b, written \<sigma> g1 W)"
        "gridBorders \<sigma> g2 X Y wd ht = (b, written \<sigma> g2 W)"
      and W: "W \<subseteq> borderSet X Y wd ht" "(Y, X) \<in> W" "b \<longrightarrow> W = borderSet X Y wd ht" by auto
    have m: "nat nw < nat wd" "nat (wd - nw) < nat wd" using nb by linarith+
    have corner: "written \<sigma> g1 W Y X = \<sigma> Y X" "written \<sigma> g2 W Y X = \<sigma> Y X"
      using W(2) by (simp_all add: written_apply)
    show ?thesis
    proof (cases "b \<and> \<sigma> Y X \<noteq> 0")
      case True
      then have Wb: "W = borderSet X Y wd ht" using W by simp
      have t1: "b \<and> written \<sigma> g1 W Y X \<noteq> 0" and t2: "b \<and> written \<sigma> g2 W Y X \<noteq> 0"
        using True corner by simp_all
      have e: "gridDivideAndConquer \<sigma> g1 X Y wd ht = gridFill (written \<sigma> g1 W) X Y wd ht"
              "gridDivideAndConquer \<sigma> g2 X Y wd ht = gridFill (written \<sigma> g2 W) X Y wd ht"
        by (rule gridDivideAndConquer_prune[OF w3 h3 gb(1) t1],
            rule gridDivideAndConquer_prune[OF w3 h3 gb(2) t2])
      show ?thesis
      proof (cases "Y + 1 \<le> r \<and> r < Y + ht - 1 \<and> X + 1 \<le> c \<and> c < X + wd - 1")
        case True
        then show ?thesis unfolding e using corner by (simp add: gridFill_def)
      next
        case False
        then have "(r, c) \<in> W" unfolding Wb using rc
          by (auto simp: borderSet_def rectSet_def)
        then show ?thesis unfolding e using False by (auto simp: gridFill_def written_apply)
      qed
    next
      case nf: False
      have f1: "\<not> (b \<and> written \<sigma> g1 W Y X \<noteq> 0)" and f2: "\<not> (b \<and> written \<sigma> g2 W Y X \<noteq> 0)"
        using nf corner by simp_all
      define a1 where "a1 = gridDivideAndConquer \<sigma> (written \<sigma> g1 W) X Y nw nh"
      define a2 where "a2 = gridDivideAndConquer \<sigma> (written \<sigma> g2 W) X Y nw nh"
      define b1 where "b1 = gridDivideAndConquer \<sigma> a1 (X + nw) Y (wd - nw) nh"
      define b2 where "b2 = gridDivideAndConquer \<sigma> a2 (X + nw) Y (wd - nw) nh"
      define c1 where "c1 = gridDivideAndConquer \<sigma> b1 X (Y + nh) nw (ht - nh)"
      define c2 where "c2 = gridDivideAndConquer \<sigma> b2 X (Y + nh) nw (ht - nh)"
      define d1 where "d1 = gridDivideAndConquer \<sigma> c1 (X + nw) (Y + nh) (wd - nw) (ht - nh)"
      define d2 where "d2 = gridDivideAndConquer \<sigma> c2 (X + nw) (Y + nh) (wd - nw) (ht - nh)"
      have e: "gridDivideAndConquer \<sigma> g1 X Y wd ht = d1" "gridDivideAndConquer \<sigma> g2 X Y wd ht = d2"
        unfolding d1_def d2_def c1_def c2_def b1_def b2_def a1_def a2_def
        by (rule gridDivideAndConquer_split[OF w3 h3 gb(1) f1 nw_def nh_def],
            rule gridDivideAndConquer_split[OF w3 h3 gb(2) f2 nw_def nh_def])
      \<comment> \<open>the column to the left of the rectangle is never written\<close>
      have out: "(r', X - 1) \<notin> rectSet X' Y' w' h'" if "X \<le> X'" for r' X' Y' w' h'
        using that by (auto simp: rectSet_def)
      have leftW: "written \<sigma> g1 W r' (X - 1) = g1 r' (X - 1)"
                  "written \<sigma> g2 W r' (X - 1) = g2 r' (X - 1)" for r'
        using W(1) by (auto simp: written_apply borderSet_def)
      \<comment> \<open>top-left quadrant\<close>
      have A: "a1 r' c' = a2 r' c'" if "(r', c') \<in> rectSet X Y nw nh" for r' c'
        unfolding a1_def a2_def
      proof (rule less.hyps[OF m(1) _ that])
        show "0 < X \<longrightarrow> (\<forall>r. Y \<le> r \<and> r < Y + nh \<longrightarrow>
                written \<sigma> g1 W r (X - 1) = written \<sigma> g2 W r (X - 1))"
          unfolding leftW using la nb by auto
      qed
      \<comment> \<open>top-right quadrant\<close>
      have B: "b1 r' c' = b2 r' c'" if "(r', c') \<in> rectSet (X + nw) Y (wd - nw) nh" for r' c'
        unfolding b1_def b2_def
      proof (rule less.hyps[OF m(2) _ that])
        show "0 < X + nw \<longrightarrow> (\<forall>r. Y \<le> r \<and> r < Y + nh \<longrightarrow> a1 r (X + nw - 1) = a2 r (X + nw - 1))"
          using A nb by (auto simp: rectSet_def)
      qed
      \<comment> \<open>bottom-left quadrant\<close>
      have lb: "b1 r' (X - 1) = g1 r' (X - 1)" "b2 r' (X - 1) = g2 r' (X - 1)" for r'
        unfolding b1_def b2_def a1_def a2_def using nb
        by (simp_all add: gridDivideAndConquer_frame out leftW)
      have C: "c1 r' c' = c2 r' c'" if "(r', c') \<in> rectSet X (Y + nh) nw (ht - nh)" for r' c'
        unfolding c1_def c2_def
      proof (rule less.hyps[OF m(1) _ that])
        show "0 < X \<longrightarrow> (\<forall>r. Y + nh \<le> r \<and> r < Y + nh + (ht - nh) \<longrightarrow> b1 r (X - 1) = b2 r (X - 1))"
          unfolding lb using la nb by auto
      qed
      \<comment> \<open>bottom-right quadrant\<close>
      have D: "d1 r' c' = d2 r' c'" if "(r', c') \<in> rectSet (X + nw) (Y + nh) (wd - nw) (ht - nh)" for r' c'
        unfolding d1_def d2_def
      proof (rule less.hyps[OF m(2) _ that])
        show "0 < X + nw \<longrightarrow> (\<forall>r. Y + nh \<le> r \<and> r < Y + nh + (ht - nh) \<longrightarrow>
                 c1 r (X + nw - 1) = c2 r (X + nw - 1))"
          using C nb by (auto simp: rectSet_def)
      qed
      from rect_quadrants[OF nb rc]
      consider (TL) "(r, c) \<in> rectSet X Y nw nh"
        | (TR) "(r, c) \<in> rectSet (X + nw) Y (wd - nw) nh"
        | (BL) "(r, c) \<in> rectSet X (Y + nh) nw (ht - nh)"
        | (BR) "(r, c) \<in> rectSet (X + nw) (Y + nh) (wd - nw) (ht - nh)" by blast
      then show ?thesis
      proof cases
        case TL
        have "d1 r c = a1 r c" "d2 r c = a2 r c"
          unfolding d1_def d2_def c1_def c2_def b1_def b2_def
          by (rule quad_TL[OF nb(1) nb(3) TL])+
        then show ?thesis unfolding e using A[OF TL] by simp
      next
        case TR
        have "d1 r c = b1 r c" "d2 r c = b2 r c"
          unfolding d1_def d2_def c1_def c2_def
          by (rule quad_TR[OF nb(1) nb(3) TR])+
        then show ?thesis unfolding e using B[OF TR] by simp
      next
        case BL
        have "d1 r c = c1 r c" "d2 r c = c2 r c"
          unfolding d1_def d2_def
          by (rule quad_BL[OF nb(1) nb(3) BL])+
        then show ?thesis unfolding e using C[OF BL] by simp
      next
        case BR
        then show ?thesis unfolding e by (rule D)
      qed
    qed
  qed
qed

subsection \<open>The public generators\<close>

lemma scored_isGenerated [simp]: "scored \<sigma> (s\<lparr>isGenerated := b\<rparr>) = scored \<sigma> s"
  by (simp add: scored_def escapeScore_def pixelCoord_def)

lemma escapeScore_grid [simp]: "escapeScore (s\<lparr>pixelScores := g\<rparr>) c = escapeScore s c"
  by (simp add: escapeScore_def)

lemma escapeScore_isGenerated [simp]: "escapeScore (s\<lparr>isGenerated := b\<rparr>) c = escapeScore s c"
  by (simp add: escapeScore_def)

lemma pixelCoord_grid [simp]: "pixelCoord (s\<lparr>pixelScores := g\<rparr>) row col = pixelCoord s row col"
  by (simp add: pixelCoord_def)

lemma pixelCoord_isGenerated [simp]: "pixelCoord (s\<lparr>isGenerated := b\<rparr>) row col = pixelCoord s row col"
  by (simp add: pixelCoord_def)

lemma scoreOf_grid [simp]: "scoreOf (s\<lparr>pixelScores := g\<rparr>) = scoreOf s"
  by (simp add: scoreOf_def)

lemma scoreOf_isGenerated [simp]: "scoreOf (s\<lparr>isGenerated := b\<rparr>) = scoreOf s"
  by (simp add: scoreOf_def)


lemma generate_refine:
  assumes "0 \<le> width s" "0 \<le> height s" "0 \<le> maxIterations s"
  shows "MandelbrotSet_generate s =
     Some (s\<lparr>pixelScores := gridRectangle (scoreOf s) (pixelScores s) 0 0 (width s) (height s),
             isGenerated := True\<rparr>)"
  using generateRectangle_refine[OF scored_scoreOf[OF assms(3)] assms(1,2), of "pixelScores s" 0 0]
  by (simp add: MandelbrotSet_generate_def)

lemma fastGenerate_refine:
  assumes "0 \<le> width s" "0 \<le> height s" "0 \<le> maxIterations s"
  shows "MandelbrotSet_fastGenerate s =
     Some (s\<lparr>pixelScores := gridDivideAndConquer (scoreOf s) (pixelScores s) 0 0 (width s) (height s),
             isGenerated := True\<rparr>)"
  using generateDivideAndConquer_refine[OF scored_scoreOf[OF assms(3)] assms(1,2), of "pixelScores s" 0 0]
  by (simp add: MandelbrotSet_fastGenerate_def)

lemma viewport5_reached:
  "MandelbrotSet_setPosition (createMandelbrotSet 5 5 blankSession) \<lparr>coord_x = 0, coord_y = 0\<rparr> 0
     = Some viewport5"
  by (simp add: MandelbrotSet_setPosition_def createMandelbrotSet_def blankSession_def
      shiftLeft_ull_def viewport5_def DEFAULT_MAX_ITERATIONS_def Let_def)

subsection \<open>The scorer and the orbit\<close>





subsection \<open>Negative dimensions\<close>




subsection \<open>The example sessions and further facts about the naive grid\<close>





subsection \<open>When the border evaluation reports a uniform border\<close>









section \<open>The claims of the specification\<close>












text \<open>
  Claim C6.  \<^verbatim>\<open>MandelbrotSet_getScores\<close> returns the grid of the session exactly when
  \<open>isGenerated\<close> holds; otherwise it prints the diagnostic and returns \<^verbatim>\<open>NULL\<close>.  The
  session is stale right after \<^verbatim>\<open>createMandelbrotSet\<close> and after every
  \<^verbatim>\<open>MandelbrotSet_setPosition\<close>; every generation that returns leaves it fresh, and with
  non-negative dimensions and bound both generators return a session of the same width and
  height.
\<close>

theorem getScores_fresh:
  "(isGenerated s \<longrightarrow> MandelbrotSet_getScores s = ([], Some (pixelScores s)))
   \<and> (\<not> isGenerated s \<longrightarrow> MandelbrotSet_getScores s = (staleMessage, None))
   \<and> ((snd (MandelbrotSet_getScores s) \<noteq> None) = isGenerated s)
   \<and> MandelbrotSet_getScores (createMandelbrotSet wd ht uninit) = (staleMessage, None)
   \<and> width (createMandelbrotSet wd ht uninit) = wd
   \<and> height (createMandelbrotSet wd ht uninit) = ht
   \<and> (\<forall>f. MandelbrotSet_setPosition s c zoom = Some f
          \<longrightarrow> MandelbrotSet_getScores f = (staleMessage, None))
   \<and> (\<forall>f. MandelbrotSet_generate s = Some f
          \<longrightarrow> MandelbrotSet_getScores f = ([], Some (pixelScores f)))
   \<and> (\<forall>f. MandelbrotSet_fastGenerate s = Some f
          \<longrightarrow> MandelbrotSet_getScores f = ([], Some (pixelScores f)))
   \<and> (0 \<le> width s \<and> 0 \<le> height s \<and> 0 \<le> maxIterations s \<longrightarrow>
        (\<exists>f. MandelbrotSet_generate s = Some f \<and> width f = width s \<and> height f = height s) \<and>
        (\<exists>f. MandelbrotSet_fastGenerate s = Some f \<and> width f = width s \<and> height f = height s))"
proof (intro conjI allI impI)
  show "MandelbrotSet_getScores f = (staleMessage, None)"
    if "MandelbrotSet_setPosition s c zoom = Some f" for f
    using that
    by (auto simp: MandelbrotSet_setPosition_def MandelbrotSet_getScores_def Let_def
          Option.bind_eq_Some_conv)
  show "MandelbrotSet_getScores f = ([], Some (pixelScores f))"
    if "MandelbrotSet_generate s = Some f" for f
    using that
    by (auto simp: MandelbrotSet_generate_def MandelbrotSet_getScores_def Option.bind_eq_Some_conv)
  show "MandelbrotSet_getScores f = ([], Some (pixelScores f))"
    if "MandelbrotSet_fastGenerate s = Some f" for f
    using that
    by (auto simp: MandelbrotSet_fastGenerate_def MandelbrotSet_getScores_def Option.bind_eq_Some_conv)
  assume a: "0 \<le> width s \<and> 0 \<le> height s \<and> 0 \<le> maxIterations s"
  show "\<exists>f. MandelbrotSet_generate s = Some f \<and> width f = width s \<and> height f = height s"
    using generate_refine[of s] a by simp
  show "\<exists>f. MandelbrotSet_fastGenerate s = Some f \<and> width f = width s \<and> height f = height s"
    using fastGenerate_refine[of s] a by simp
qed (simp_all add: MandelbrotSet_getScores_def createMandelbrotSet_def)

theorem getScores_fresh_witness:
  "MandelbrotSet_getScores (createMandelbrotSet 5 5 blankSession) = (staleMessage, None)
   \<and> MandelbrotSet_getScores viewport5 = (staleMessage, None)
   \<and> MandelbrotSet_getScores (viewport5\<lparr>isGenerated := True\<rparr>) = ([], Some (\<lambda>row col. - 1))
   \<and> (\<exists>f. MandelbrotSet_generate viewport5 = Some f \<and>
          MandelbrotSet_getScores f = ([], Some (pixelScores f)) \<and> width f = 5 \<and> height f = 5)
   \<and> (\<exists>f. MandelbrotSet_fastGenerate viewport5 = Some f \<and>
          MandelbrotSet_getScores f = ([], Some (pixelScores f)) \<and> width f = 5 \<and> height f = 5)"
proof -
  note t = getScores_fresh[of viewport5 5 5 blankSession "\<lparr>coord_x = 0, coord_y = 0\<rparr>" 0]
  note u = getScores_fresh[of "createMandelbrotSet 5 5 blankSession" 5 5 blankSession
             "\<lparr>coord_x = 0, coord_y = 0\<rparr>" 0]
  note v = getScores_fresh[of "viewport5\<lparr>isGenerated := True\<rparr>" 5 5 blankSession
             "\<lparr>coord_x = 0, coord_y = 0\<rparr>" 0]
  have h: "0 \<le> width viewport5 \<and> 0 \<le> height viewport5 \<and> 0 \<le> maxIterations viewport5"
    by (simp add: viewport5_def)
  have 1: "MandelbrotSet_getScores (createMandelbrotSet 5 5 blankSession) = (staleMessage, None)"
    using t by blast
  have 2: "MandelbrotSet_getScores viewport5 = (staleMessage, None)"
    using u viewport5_reached by blast
  have "isGenerated (viewport5\<lparr>isGenerated := True\<rparr>)" by simp
  with v have "MandelbrotSet_getScores (viewport5\<lparr>isGenerated := True\<rparr>)
      = ([], Some (pixelScores (viewport5\<lparr>isGenerated := True\<rparr>)))" by blast
  then have 3: "MandelbrotSet_getScores (viewport5\<lparr>isGenerated := True\<rparr>)
      = ([], Some (\<lambda>row col. - 1))" by (simp add: viewport5_def)
  from t h obtain f where f: "MandelbrotSet_generate viewport5 = Some f"
    "width f = width viewport5" "height f = height viewport5" by blast
  from t f(1) have "MandelbrotSet_getScores f = ([], Some (pixelScores f))" by blast
  with f have 4: "\<exists>f. MandelbrotSet_generate viewport5 = Some f \<and>
          MandelbrotSet_getScores f = ([], Some (pixelScores f)) \<and> width f = 5 \<and> height f = 5"
    by (auto simp: viewport5_def)
  from t h obtain f' where f': "MandelbrotSet_fastGenerate viewport5 = Some f'"
    "width f' = width viewport5" "height f' = height viewport5" by blast
  from t f'(1) have "MandelbrotSet_getScores f' = ([], Some (pixelScores f'))" by blast
  with f' have 5: "\<exists>f. MandelbrotSet_fastGenerate viewport5 = Some f \<and>
          MandelbrotSet_getScores f = ([], Some (pixelScores f)) \<and> width f = 5 \<and> height f = 5"
    by (auto simp: viewport5_def)
  show ?thesis using 1 2 3 4 5 by blast
qed




text \<open>
  Claim C8.  \<^verbatim>\<open>MandelbrotSet_setMaxIterations\<close> updates the field \<open>maxIterations\<close> and
  nothing else: \<open>isGenerated\<close>, the dimensions, the centre, the resolution, the top-left
  coordinate and every stored score are unchanged, so \<^verbatim>\<open>MandelbrotSet_getScores\<close> answers
  as before; the scorer of the updated session runs with the new bound.
\<close>

theorem setMaxIterations_frame:
  "MandelbrotSet_setMaxIterations fractal n = fractal\<lparr>maxIterations := n\<rparr>
   \<and> maxIterations (MandelbrotSet_setMaxIterations fractal n) = n
   \<and> isGenerated (MandelbrotSet_setMaxIterations fractal n) = isGenerated fractal
   \<and> width (MandelbrotSet_setMaxIterations fractal n) = width fractal
   \<and> height (MandelbrotSet_setMaxIterations fractal n) = height fractal
   \<and> center (MandelbrotSet_setMaxIterations fractal n) = center fractal
   \<and> resolution (MandelbrotSet_setMaxIterations fractal n) = resolution fractal
   \<and> topEdge (MandelbrotSet_setMaxIterations fractal n) = topEdge fractal
   \<and> left (MandelbrotSet_setMaxIterations fractal n) = left fractal
   \<and> pixelScores (MandelbrotSet_setMaxIterations fractal n) = pixelScores fractal
   \<and> MandelbrotSet_getScores (MandelbrotSet_setMaxIterations fractal n)
       = MandelbrotSet_getScores fractal
   \<and> escapeScore (MandelbrotSet_setMaxIterations fractal n) coord
       = (if cardioidTest coord then Some n else escapeLoop n coord 0 0 0 0 0)"
  by (simp add: MandelbrotSet_setMaxIterations_def MandelbrotSet_getScores_def escapeScore_def)

theorem setMaxIterations_frame_witness:
  "MandelbrotSet_getScores (MandelbrotSet_setMaxIterations (blankSession\<lparr>isGenerated := True\<rparr>) 7)
     = ([], Some (\<lambda>row col. - 1))
   \<and> escapeScore (MandelbrotSet_setMaxIterations blankSession 7) \<lparr>coord_x = 2, coord_y = 2\<rparr> = Some 1"
  using setMaxIterations_frame[of "blankSession\<lparr>isGenerated := True\<rparr>" 7 "\<lparr>coord_x = 2, coord_y = 2\<rparr>"]
    setMaxIterations_frame[of "blankSession" 7 "\<lparr>coord_x = 2, coord_y = 2\<rparr>"]
  by (simp add: MandelbrotSet_getScores_def MandelbrotSet_setMaxIterations_def blankSession_def
        cardioidTest_def escapeLoop.simps ESCAPE_RADIUS_SQ_def)

text \<open>
  Claim C9.  With non-negative dimensions and iteration bound, \<^verbatim>\<open>MandelbrotSet_fastGenerate\<close>
  returns, and a second call on the session it returned gives back the very same session:
  every pixel is overwritten with the score the first call stored.  The scores inside the
  viewport do not depend on the contents of the grid before the call.
\<close>

theorem fastGenerate_idempotent:
  assumes "0 \<le> width s" "0 \<le> height s" "0 \<le> maxIterations s"
  shows "\<exists>f. MandelbrotSet_fastGenerate s = Some f \<and> MandelbrotSet_fastGenerate f = Some f \<and>
     (\<forall>g. \<exists>f'. MandelbrotSet_fastGenerate (s\<lparr>pixelScores := g\<rparr>) = Some f' \<and>
         (\<forall>r c. 0 \<le> r \<and> r < height s \<and> 0 \<le> c \<and> c < width s \<longrightarrow>
                 pixelScores f' r c = pixelScores f r c))"
proof -
  let ?\<sigma> = "scoreOf s"
  let ?D = "\<lambda>g. gridDivideAndConquer ?\<sigma> g 0 0 (width s) (height s)"
  define f where "f = s\<lparr>pixelScores := ?D (pixelScores s), isGenerated := True\<rparr>"
  have run: "MandelbrotSet_fastGenerate (s\<lparr>pixelScores := g\<rparr>)
           = Some (s\<lparr>pixelScores := ?D g, isGenerated := True\<rparr>)" for g
    using fastGenerate_refine[of "s\<lparr>pixelScores := g\<rparr>"] assms by simp
  have agree: "?D g1 r c = ?D g2 r c" if "(r, c) \<in> rectSet 0 0 (width s) (height s)" for g1 g2 r c
    by (rule gridDivideAndConquer_agree[OF _ that]) simp
  have idem: "?D (?D g) = ?D g" for g
  proof (intro ext)
    fix r c
    show "?D (?D g) r c = ?D g r c"
    proof (cases "(r, c) \<in> rectSet 0 0 (width s) (height s)")
      case True
      then show ?thesis by (rule agree)
    next
      case False
      then show ?thesis by (rule gridDivideAndConquer_frame)
    qed
  qed
  have 1: "MandelbrotSet_fastGenerate s = Some f"
    unfolding f_def using run[of "pixelScores s"] by simp
  have "MandelbrotSet_fastGenerate f =
      Some (f\<lparr>pixelScores := gridDivideAndConquer (scoreOf f) (pixelScores f) 0 0 (width f) (height f),
              isGenerated := True\<rparr>)"
    by (rule fastGenerate_refine) (use assms in \<open>simp_all add: f_def\<close>)
  then have 2: "MandelbrotSet_fastGenerate f = Some f"
    by (simp add: f_def idem)
  have 3: "\<exists>f'. MandelbrotSet_fastGenerate (s\<lparr>pixelScores := g\<rparr>) = Some f' \<and>
         (\<forall>r c. 0 \<le> r \<and> r < height s \<and> 0 \<le> c \<and> c < width s \<longrightarrow>
                 pixelScores f' r c = pixelScores f r c)" for g
  proof (intro exI conjI allI impI)
    show "MandelbrotSet_fastGenerate (s\<lparr>pixelScores := g\<rparr>)
            = Some (s\<lparr>pixelScores := ?D g, isGenerated := True\<rparr>)" by (rule run)
    fix r c assume "0 \<le> r \<and> r < height s \<and> 0 \<le> c \<and> c < width s"
    then have "(r, c) \<in> rectSet 0 0 (width s) (height s)" by (simp add: rectSet_def)
    from agree[OF this, of g "pixelScores s"]
    show "pixelScores (s\<lparr>pixelScores := ?D g, isGenerated := True\<rparr>) r c = pixelScores f r c"
      by (simp add: f_def)
  qed
  show ?thesis using 1 2 3 by blast
qed

theorem fastGenerate_idempotent_witness:
  "\<exists>f. MandelbrotSet_fastGenerate viewport5 = Some f \<and> MandelbrotSet_fastGenerate f = Some f"
proof -
  have h: "0 \<le> width viewport5" "0 \<le> height viewport5" "0 \<le> maxIterations viewport5"
    by (simp_all add: viewport5_def)
  from fastGenerate_idempotent[OF h] show ?thesis by blast
qed



end
